theory Spec2Isabelle
  imports Complex_Main "HOL-Library.Word" "HOL-Library.Log_Nat"
begin

section \<open>The Live Coach session pipeline\<close>

text \<open>
  A shallow embedding of the component \<^verbatim>\<open>LiveCoach\<close> (the file that starts with
  \<^verbatim>\<open>// Always use import {GoogleGenAI} from "@google/genai"\<close>): its wire codec
  (\<^verbatim>\<open>decode\<close>, \<^verbatim>\<open>encode\<close>, \<^verbatim>\<open>decodeAudioData\<close>, \<^verbatim>\<open>createBlob\<close>),
  the highlight store with its expiry effect, and the callbacks of the streaming
  session (\<^verbatim>\<open>onopen\<close>, \<^verbatim>\<open>onmessage\<close>, \<^verbatim>\<open>onerror\<close>, \<^verbatim>\<open>onclose\<close>,
  \<^verbatim>\<open>startSession\<close>, \<^verbatim>\<open>stopSession\<close>).

  Conventions.
  \<^item> A \<^verbatim>\<open>Uint8Array\<close> is a list of \<open>8 word\<close>, an \<^verbatim>\<open>Int16Array\<close> a list of
    \<open>16 word\<close> read with \<open>sint\<close>.
  \<^item> A JavaScript string whose code units are all below 256 (a base64 text, a binary
    string) is a \<open>string\<close>; \<open>of_char\<close> is \<^verbatim>\<open>charCodeAt\<close> and \<open>char_of\<close> is
    \<^verbatim>\<open>String.fromCharCode\<close>.
  \<^item> An exception is a value \<open>Inl e\<close> of the result type \<open>error + 'a\<close>.
  \<^item> Audio samples are rationals: every value of a \<^verbatim>\<open>Float32Array\<close> is a dyadic
    rational, and scaling it by \<open>32768\<close> or dividing a 16-bit integer by \<open>32768\<close>
    is exact in the source's floating point as well.
  \<^item> Times on the playback clock are the rationals that the source's float64 numbers
    denote; a sum or a quotient of the source is rounded by \<open>fl64\<close>.
  \<^item> \<^verbatim>\<open>Date.now()\<close> is an \<open>int\<close> of milliseconds.
\<close>

datatype error = InvalidCharacterError | RangeError | NotSupportedError

type_synonym byte = "8 word"
type_synonym int16 = "16 word"

subsection \<open>The platform's base64 functions\<close>

text \<open>
  \<^verbatim>\<open>btoa\<close> and \<^verbatim>\<open>atob\<close> are functions of the browser, not of the repository. They are
  modelled after their definition (RFC 4648 base64 with padding for \<^verbatim>\<open>btoa\<close>, the
  forgiving base64 decoder for \<^verbatim>\<open>atob\<close>), on the values of the six-bit groups.
\<close>

definition b64char :: "nat \<Rightarrow> char" where
  "b64char n =
     (if n < 26 then char_of (n + 65)
      else if n < 52 then char_of (n + 71)
      else if n < 62 then char_of (n - 4)
      else if n = 62 then CHR ''+'' else CHR ''/'')"

definition b64val :: "char \<Rightarrow> nat option" where
  "b64val c =
     (let n = (of_char c :: nat) in
      if 65 \<le> n \<and> n \<le> 90 then Some (n - 65)
      else if 97 \<le> n \<and> n \<le> 122 then Some (n - 71)
      else if 48 \<le> n \<and> n \<le> 57 then Some (n + 4)
      else if n = 43 then Some 62
      else if n = 47 then Some 63
      else None)"

fun sextets :: "nat list \<Rightarrow> nat list" where
  "sextets (a # b # c # rest) =
     [a div 4, (a mod 4) * 16 + b div 16, (b mod 16) * 4 + c div 64, c mod 64] @ sextets rest"
| "sextets [a, b] = [a div 4, (a mod 4) * 16 + b div 16, (b mod 16) * 4]"
| "sextets [a] = [a div 4, (a mod 4) * 16]"
| "sextets [] = []"

definition btoa :: "string \<Rightarrow> string" where
  "btoa s =
     (let bs = map of_char s
      in map b64char (sextets bs) @ replicate ((3 - length bs mod 3) mod 3) (CHR ''=''))"

definition is_ascii_whitespace :: "char \<Rightarrow> bool" where
  "is_ascii_whitespace c \<longleftrightarrow> (of_char c :: nat) \<in> {9, 10, 12, 13, 32}"

definition strip_padding :: "string \<Rightarrow> string" where
  "strip_padding d =
     (if length d mod 4 = 0 then
        (if 2 \<le> length d \<and> last d = CHR ''='' \<and> last (butlast d) = CHR ''=''
         then butlast (butlast d)
         else if d \<noteq> [] \<and> last d = CHR ''='' then butlast d
         else d)
      else d)"

fun octets :: "nat list \<Rightarrow> nat list" where
  "octets (a # b # c # d # rest) =
     [a * 4 + b div 16, (b mod 16) * 16 + c div 4, (c mod 4) * 64 + d] @ octets rest"
| "octets [a, b, c] = [a * 4 + b div 16, (b mod 16) * 16 + c div 4]"
| "octets [a, b] = [a * 4 + b div 16]"
| "octets _ = []"

definition atob :: "string \<Rightarrow> error + string" where
  "atob s =
     (let d = strip_padding (filter (\<lambda>c. \<not> is_ascii_whitespace c) s)
      in if length d mod 4 = 1 then Inl InvalidCharacterError
         else (case those (map b64val d) of
                 None \<Rightarrow> Inl InvalidCharacterError
               | Some vs \<Rightarrow> Inr (map char_of (octets vs))))"

subsection \<open>Utilities: \<^verbatim>\<open>decode\<close> and \<^verbatim>\<open>encode\<close>\<close>

text \<open>
  \<^verbatim>\<open>decode\<close> stores \<^verbatim>\<open>binaryString.charCodeAt(i)\<close> into a \<^verbatim>\<open>Uint8Array\<close> (the store
  reduces modulo 256); \<^verbatim>\<open>encode\<close> appends \<^verbatim>\<open>String.fromCharCode(bytes[i])\<close> for every
  byte and hands the binary string to \<^verbatim>\<open>btoa\<close>.
\<close>

definition decode :: "string \<Rightarrow> error + byte list" where
  "decode base64 =
     (case atob base64 of
        Inl e \<Rightarrow> Inl e
      | Inr binaryString \<Rightarrow> Inr (map (\<lambda>c. word_of_nat (of_char c)) binaryString))"

definition encode :: "byte list \<Rightarrow> string" where
  "encode bytes = btoa (map (\<lambda>b. char_of (unat b)) bytes)"

subsection \<open>The PCM codec: \<^verbatim>\<open>createBlob\<close> and \<^verbatim>\<open>decodeAudioData\<close>\<close>

text \<open>
  Storing a number into an \<^verbatim>\<open>Int16Array\<close> truncates it towards zero and keeps the
  low 16 bits (two's complement). The bytes of an \<^verbatim>\<open>Int16Array\<close> seen through a
  \<^verbatim>\<open>Uint8Array\<close> on the same buffer are little-endian, low byte first; both views
  of the source are on the same platform, so the order is the same on both ways.
\<close>

definition trunc :: "rat \<Rightarrow> int" where
  "trunc x = (if 0 \<le> x then \<lfloor>x\<rfloor> else \<lceil>x\<rceil>)"

definition toInt16 :: "rat \<Rightarrow> int16" where
  "toInt16 x = word_of_int (trunc x)"

definition int16_bytes :: "int16 \<Rightarrow> byte list" where
  "int16_bytes w = [ucast w, ucast (drop_bit 8 w)]"

fun bytes_int16 :: "byte list \<Rightarrow> int16 list" where
  "bytes_int16 (lo # hi # rest) = (ucast lo + push_bit 8 (ucast hi)) # bytes_int16 rest"
| "bytes_int16 _ = []"

record Blob =
  data :: string
  mimeType :: string

text \<open>\<^verbatim>\<open>createBlob\<close>: \<^verbatim>\<open>int16[i] = data[i] * 32768\<close>, then \<^verbatim>\<open>encode\<close> of the bytes.\<close>

definition createBlob :: "rat list \<Rightarrow> Blob" where
  "createBlob samples =
     (let int16 = map (\<lambda>x. toInt16 (x * 32768)) samples
      in \<lparr>data = encode (concat (map int16_bytes int16)),
          mimeType = ''audio/pcm;rate=16000''\<rparr>)"

record AudioBuffer =
  numberOfChannels :: nat
  frames :: nat
  sampleRate :: nat
  channelData :: "rat list list"

text \<open>
  The rounding of float64 arithmetic: to the nearest number with a significand of 53
  bits, a tie to the even one. In units of \<open>2\<^sup>-\<^sup>1\<^sup>0\<^sup>7\<^sup>4\<close>, the smallest positive
  float64 number, the spacing of the numbers around \<open>x\<close> is \<open>2 ^ s\<close>, where \<open>s\<close> is
  the number of bits of the integer part beyond 53. Overflow to infinity (beyond
  \<open>2\<^sup>1\<^sup>0\<^sup>2\<^sup>4\<close>) is not modelled: no time of a session is near it.
\<close>

definition round_half_even :: "rat \<Rightarrow> int" where
  "round_half_even y =
     (let r = \<lfloor>y\<rfloor>; d = y - of_int r
      in if d < 1 / 2 then r else if 1 / 2 < d then r + 1 else if even r then r else r + 1)"

definition fl64 :: "rat \<Rightarrow> rat" where
  "fl64 x =
     (let y = \<bar>x\<bar> * 2 ^ 1074;
          s = nat (bitlen \<lfloor>y\<rfloor> - 53)
      in sgn x * of_int (round_half_even (y / 2 ^ s)) * 2 ^ s / 2 ^ 1074)"

text \<open>\<^verbatim>\<open>buffer.duration\<close>: the float64 quotient of the length and the sample rate.\<close>

definition duration :: "AudioBuffer \<Rightarrow> rat" where
  "duration b = fl64 (of_nat (frames b) / of_nat (sampleRate b))"

text \<open>
  \<^verbatim>\<open>new Int16Array(buffer)\<close> throws a \<^verbatim>\<open>RangeError\<close> when the byte length of the buffer
  is odd. \<^verbatim>\<open>createBuffer\<close> throws a \<^verbatim>\<open>NotSupportedError\<close> when an argument is zero,
  and returns zero-filled channels otherwise; the upper limits of an implementation (it
  has to accept 32 channels and rates from 8000 to 96000 Hz at least) are not modelled,
  and the theorems that depend on them carry the bounds as hypotheses.
\<close>

definition newInt16Array :: "byte list \<Rightarrow> error + int16 list" where
  "newInt16Array bytes =
     (if odd (length bytes) then Inl RangeError else Inr (bytes_int16 bytes))"

definition createBuffer :: "nat \<Rightarrow> nat \<Rightarrow> nat \<Rightarrow> error + AudioBuffer" where
  "createBuffer numChannels len rate =
     (if numChannels = 0 \<or> len = 0 \<or> rate = 0 then Inl NotSupportedError
      else Inr \<lparr>numberOfChannels = numChannels, frames = len, sampleRate = rate,
                channelData = replicate numChannels (replicate len 0)\<rparr>)"

text \<open>
  The inner loop of \<^verbatim>\<open>decodeAudioData\<close> runs while \<^verbatim>\<open>i < frameCount\<close>, where
  \<^verbatim>\<open>frameCount = dataInt16.length / numChannels\<close> need not be an integer, while the
  buffer has \<open>\<lfloor>frameCount\<rfloor>\<close> frames (the argument of \<^verbatim>\<open>createBuffer\<close> is converted
  to an unsigned integer). A store beyond the end of a typed array is ignored, which
  the model writes out; a read beyond the end of \<^verbatim>\<open>dataInt16\<close> happens only for
  such an ignored store.
\<close>

definition fillChannel :: "int16 list \<Rightarrow> nat \<Rightarrow> rat \<Rightarrow> nat \<Rightarrow> rat list \<Rightarrow> rat list" where
  "fillChannel dataInt16 numChannels frameCount channel cd =
     foldl (\<lambda>cd i. if i < length cd
                     then cd[i := rat_of_int (sint (dataInt16 ! (i * numChannels + channel))) / 32768]
                     else cd)
       cd [0..<nat \<lceil>frameCount\<rceil>]"

definition decodeAudioData :: "byte list \<Rightarrow> nat \<Rightarrow> nat \<Rightarrow> error + AudioBuffer" where
  "decodeAudioData bytes rate numChannels =
     (case newInt16Array bytes of
        Inl e \<Rightarrow> Inl e
      | Inr dataInt16 \<Rightarrow>
          (let frameCount = rat_of_nat (length dataInt16) / rat_of_nat numChannels
           in case createBuffer numChannels (nat \<lfloor>frameCount\<rfloor>) rate of
                Inl e \<Rightarrow> Inl e
              | Inr buffer \<Rightarrow>
                  Inr (buffer\<lparr>channelData :=
                         map (\<lambda>channel. fillChannel dataInt16 numChannels frameCount channel
                                          (channelData buffer ! channel))
                           [0..<numChannels]\<rparr>)))"

text \<open>
  The round trip of the outbound codec through the inbound one: the payload of
  \<^verbatim>\<open>createBlob\<close> decoded by \<^verbatim>\<open>decode\<close> and \<^verbatim>\<open>decodeAudioData\<close> with one channel.
\<close>

definition roundTrip :: "nat \<Rightarrow> rat list \<Rightarrow> error + rat list" where
  "roundTrip rate samples =
     (case decode (data (createBlob samples)) of
        Inl e \<Rightarrow> Inl e
      | Inr bytes \<Rightarrow>
          (case decodeAudioData bytes rate 1 of
             Inl e \<Rightarrow> Inl e
           | Inr buffer \<Rightarrow> Inr (channelData buffer ! 0)))"

subsection \<open>The highlight store\<close>

text \<open>
  \<^verbatim>\<open>highlights\<close> is a \<^verbatim>\<open>Record<string, HighlightData>\<close>: an object, whose own
  properties keep their insertion order. It is an association list. The updater of
  the tool call, \<^verbatim>\<open>{...prev, [args.part]: {...}}\<close>, is \<open>upsert\<close>: it overwrites the
  property in place when the object has it and appends it otherwise. The updater of
  the expiry effect is \<open>sweep\<close>: it deletes from a copy and returns the copy only when
  something was deleted.
\<close>

datatype Status = optimal | warning | critical

record HighlightData =
  status :: Status
  feedback :: string
  lastUpdated :: int

type_synonym Highlights = "(string \<times> HighlightData) list"

fun upsert :: "string \<Rightarrow> HighlightData \<Rightarrow> Highlights \<Rightarrow> Highlights" where
  "upsert part d [] = [(part, d)]"
| "upsert part d ((k, v) # rest) =
     (if k = part then (part, d) # rest else (k, v) # upsert part d rest)"

fun expire :: "int \<Rightarrow> Highlights \<Rightarrow> Highlights \<times> bool" where
  "expire now [] = ([], False)"
| "expire now ((part, d) # rest) =
     (let (next, changed) = expire now rest
      in if now - lastUpdated d > 7000 then (next, True) else ((part, d) # next, changed))"

definition sweep :: "int \<Rightarrow> Highlights \<Rightarrow> Highlights" where
  "sweep now prev = (let (next, changed) = expire now prev in if changed then next else prev)"

subsection \<open>Messages, effects and the state of the component\<close>

text \<open>
  A \<^verbatim>\<open>LiveServerMessage\<close> as far as \<^verbatim>\<open>onmessage\<close> reads it: the parts of the model
  turn, each with the data of its inline blob if it has one, the interruption flag, and
  the function calls of a tool call.
\<close>

record UpdateArgs =
  arg_part :: string
  arg_status :: Status
  arg_feedback :: string

record FunctionCall =
  fc_id :: string
  name :: string
  args :: UpdateArgs

record ServerContent =
  modelTurn :: "string option list option"
  interrupted :: bool

record LiveServerMessage =
  serverContent :: "ServerContent option"
  toolCall :: "FunctionCall list option"

record AudioBufferSourceNode =
  buffer :: AudioBuffer
  startedAt :: rat

datatype AudioContextRef = Null | Running | Closed

text \<open>
  What a callback does to the world outside the component's state, in the order in
  which it happens. A call that the source makes in a reaction of \<^verbatim>\<open>sessionPromise\<close>
  (\<^verbatim>\<open>sessionPromise.then(s => ...)\<close>) happens after the synchronous part of the
  callback has finished.
\<close>

datatype effect =
    Connect
  | SessionClose
  | SendToolResponse string string string
  | LogBiomechanicalFault string Status string
  | SourceStart AudioBufferSourceNode
  | SourceStop AudioBufferSourceNode
  | TracksStop
  | ConsoleError
  | SetTimeout nat
  | UnhandledRejection

text \<open>
  The state hooks and refs of \<^verbatim>\<open>LiveCoach\<close>. \<open>frameIntervalRef\<close> and
  \<open>scriptProcessorRef\<close> say whether the video-frame timer and the audio processor are
  running; \<open>expiryInterval\<close> is the period of the interval that the mount effect
  registers (\<open>None\<close> before the mount and after the unmount).
\<close>

record LiveCoach =
  isActive :: bool
  hasCamera :: bool
  permissionDenied :: bool
  transcription :: string
  loading :: bool
  syncing :: bool
  highlights :: Highlights
  streamRef :: bool
  sessionPromiseRef :: bool
  frameIntervalRef :: bool
  scriptProcessorRef :: bool
  inputAudioContextRef :: AudioContextRef
  outputAudioContextRef :: AudioContextRef
  nextStartTimeRef :: rat
  audioSourcesRef :: "AudioBufferSourceNode list"
  expiryInterval :: "nat option"

definition init :: LiveCoach where
  "init = \<lparr>isActive = False, hasCamera = False, permissionDenied = False,
            transcription = ''Neural core ready for link...'', loading = False,
            syncing = False, highlights = [], streamRef = False,
            sessionPromiseRef = False, frameIntervalRef = False,
            scriptProcessorRef = False, inputAudioContextRef = Null,
            outputAudioContextRef = Null, nextStartTimeRef = 0, audioSourcesRef = [],
            expiryInterval = None\<rparr>"

subsection \<open>Camera, session start and session stop\<close>

definition stopCamera :: "LiveCoach \<Rightarrow> LiveCoach \<times> effect list" where
  "stopCamera s =
     (s\<lparr>streamRef := False, hasCamera := False\<rparr>, if streamRef s then [TracksStop] else [])"

text \<open>\<open>granted\<close> is the outcome of \<^verbatim>\<open>getUserMedia\<close>.\<close>

definition toggleCamera :: "bool \<Rightarrow> LiveCoach \<Rightarrow> LiveCoach \<times> effect list" where
  "toggleCamera granted s =
     (let s0 = s\<lparr>permissionDenied := False\<rparr>
      in if hasCamera s0 then stopCamera s0
         else if granted then (s0\<lparr>streamRef := True, hasCamera := True\<rparr>, [])
         else (s0\<lparr>permissionDenied := True\<rparr>, [ConsoleError]))"

definition startSession :: "LiveCoach \<Rightarrow> LiveCoach \<times> effect list" where
  "startSession s =
     (if \<not> hasCamera s then (s, [])
      else (s\<lparr>loading := True, isActive := True,
              transcription := ''SYNCHRONIZING NEURAL UPLINK...'',
              inputAudioContextRef := Running, outputAudioContextRef := Running,
              sessionPromiseRef := True\<rparr>, [Connect]))"

text \<open>
  The video and canvas elements are rendered when the camera is on and no permission
  error is shown, so their refs are set exactly then.
\<close>

definition onopen :: "LiveCoach \<Rightarrow> LiveCoach \<times> effect list" where
  "onopen s =
     (let s1 = s\<lparr>loading := False,
                 transcription := ''NEURAL LINK SECURED. MONITORING BIOMECHANICS.''\<rparr>;
          s2 = (if streamRef s1 then s1\<lparr>scriptProcessorRef := True\<rparr> else s1);
          s3 = (if hasCamera s2 \<and> \<not> permissionDenied s2
                then s2\<lparr>frameIntervalRef := True\<rparr> else s2)
      in (s3, []))"

definition closeContext :: "AudioContextRef \<Rightarrow> AudioContextRef" where
  "closeContext c = (case c of Null \<Rightarrow> Null | Running \<Rightarrow> Closed | Closed \<Rightarrow> Closed)"

definition stopSession :: "LiveCoach \<Rightarrow> LiveCoach \<times> effect list" where
  "stopSession s =
     (s\<lparr>isActive := False, loading := False, transcription := ''Uplink terminated.'',
        frameIntervalRef := False, scriptProcessorRef := False,
        inputAudioContextRef := closeContext (inputAudioContextRef s),
        outputAudioContextRef := closeContext (outputAudioContextRef s),
        sessionPromiseRef := False, audioSourcesRef := [], highlights := []\<rparr>,
      map SourceStop (audioSourcesRef s)
        @ (if sessionPromiseRef s then [SessionClose] else []))"

definition onerror :: "LiveCoach \<Rightarrow> LiveCoach \<times> effect list" where
  "onerror s = (s\<lparr>transcription := ''LINK FAILURE. RE-ESTABLISHING...''\<rparr>, [ConsoleError])"

definition onclose :: "LiveCoach \<Rightarrow> LiveCoach \<times> effect list" where
  "onclose s = stopSession s"

subsection \<open>\<^verbatim>\<open>onmessage\<close>\<close>

text \<open>\<^verbatim>\<open>message.serverContent.modelTurn.parts[0]?.inlineData?.data\<close>, when there is a model turn.\<close>

definition audioDataOf :: "LiveServerMessage \<Rightarrow> string option" where
  "audioDataOf message =
     (case serverContent message of
        None \<Rightarrow> None
      | Some sc \<Rightarrow>
          (case modelTurn sc of
             None \<Rightarrow> None
           | Some parts \<Rightarrow> (case parts of [] \<Rightarrow> None | p # _ \<Rightarrow> p)))"

text \<open>
  The scheduling of a decoded clip: the cursor \<^verbatim>\<open>nextStartTimeRef\<close> is raised to the
  clock of the output context, the source starts there, and the cursor moves on by
  the duration of the clip (a float64 sum).
\<close>

definition playAudio :: "AudioBuffer \<Rightarrow> rat \<Rightarrow> LiveCoach \<Rightarrow> LiveCoach \<times> effect list" where
  "playAudio audioBuffer currentTime s =
     (let start = max (nextStartTimeRef s) currentTime;
          source = \<lparr>buffer = audioBuffer, startedAt = start\<rparr>
      in (s\<lparr>nextStartTimeRef := fl64 (start + duration audioBuffer),
            audioSourcesRef := audioSourcesRef s @ [source]\<rparr>,
          [SourceStart source]))"

definition onmessage_audio ::
  "LiveServerMessage \<Rightarrow> rat \<Rightarrow> LiveCoach \<Rightarrow> error + LiveCoach \<times> effect list" where
  "onmessage_audio message currentTime s =
     (case audioDataOf message of
        None \<Rightarrow> Inr (s, [])
      | Some audioData \<Rightarrow>
          if audioData \<noteq> [] \<and> outputAudioContextRef s \<noteq> Null then
            (case decode audioData of
               Inl e \<Rightarrow> Inl e
             | Inr bytes \<Rightarrow>
                 (case decodeAudioData bytes 24000 1 of
                    Inl e \<Rightarrow> Inl e
                  | Inr audioBuffer \<Rightarrow> Inr (playAudio audioBuffer currentTime s)))
          else Inr (s, []))"

text \<open>
  The body of the loop over \<^verbatim>\<open>message.toolCall.functionCalls\<close>; \<open>now\<close> is
  \<^verbatim>\<open>Date.now()\<close>. It returns the new state, the calls it makes at once (the
  persistence call) and the calls it leaves to a reaction of \<^verbatim>\<open>sessionPromise\<close> (the
  tool response), which happen after the handler has finished.
\<close>

definition functionCall ::
  "int \<Rightarrow> FunctionCall \<Rightarrow> LiveCoach \<Rightarrow> LiveCoach \<times> effect list \<times> effect list" where
  "functionCall now fc s =
     (if name fc = ''updateAnatomyHighlight'' then
        (let a = args fc;
             s1 = s\<lparr>highlights :=
                     upsert (arg_part a)
                       \<lparr>status = arg_status a, feedback = arg_feedback a, lastUpdated = now\<rparr>
                       (highlights s)\<rparr>;
             (s2, persisted) =
               (if arg_status a \<noteq> optimal
                then (s1\<lparr>syncing := True\<rparr>,
                      [LogBiomechanicalFault (arg_part a) (arg_status a) (arg_feedback a)])
                else (s1, []))
         in (s2, persisted,
             [SendToolResponse (fc_id fc) (name fc) ''HUD LAYER UPDATED & PERSISTED'']))
      else (s, [], []))"

fun functionCalls ::
  "int \<Rightarrow> FunctionCall list \<Rightarrow> LiveCoach \<Rightarrow> LiveCoach \<times> effect list \<times> effect list" where
  "functionCalls now [] s = (s, [], [])"
| "functionCalls now (fc # fcs) s =
     (let (s1, e1, r1) = functionCall now fc s;
          (s2, e2, r2) = functionCalls now fcs s1
      in (s2, e1 @ e2, r1 @ r2))"

definition onmessage_toolCall ::
  "LiveServerMessage \<Rightarrow> int \<Rightarrow> LiveCoach \<Rightarrow> LiveCoach \<times> effect list \<times> effect list" where
  "onmessage_toolCall message now s =
     (case toolCall message of None \<Rightarrow> (s, [], []) | Some fcs \<Rightarrow> functionCalls now fcs s)"

definition isInterrupted :: "LiveServerMessage \<Rightarrow> bool" where
  "isInterrupted message =
     (case serverContent message of None \<Rightarrow> False | Some sc \<Rightarrow> interrupted sc)"

definition onmessage_interrupted :: "LiveServerMessage \<Rightarrow> LiveCoach \<Rightarrow> LiveCoach \<times> effect list" where
  "onmessage_interrupted message s =
     (if isInterrupted message
      then (s\<lparr>audioSourcesRef := [], nextStartTimeRef := 0\<rparr>,
            map SourceStop (audioSourcesRef s))
      else (s, []))"

text \<open>
  The three parts of the handler in the order of the source. The decoding of the audio
  is the only place that throws, and it comes before the first assignment: a handler
  that throws leaves the state as it was.
\<close>

definition onmessage ::
  "LiveServerMessage \<Rightarrow> int \<Rightarrow> rat \<Rightarrow> LiveCoach \<Rightarrow> error + LiveCoach \<times> effect list" where
  "onmessage message now currentTime s =
     (case onmessage_audio message currentTime s of
        Inl e \<Rightarrow> Inl e
      | Inr (s1, e1) \<Rightarrow>
          (let (s2, e2, r2) = onmessage_toolCall message now s1;
               (s3, e3) = onmessage_interrupted message s2
           in Inr (s3, e1 @ e2 @ e3 @ r2)))"

text \<open>
  The promise of \<^verbatim>\<open>logBiomechanicalFault\<close> settles; \<open>ok\<close> says whether it was fulfilled.
  The \<^verbatim>\<open>finally\<close> callback runs either way and sets a timeout of two seconds; nothing
  catches a rejection, which leaves \<^verbatim>\<open>finally\<close> as an unhandled rejection. The timeout,
  when it fires, resets the flag \<^verbatim>\<open>syncing\<close>.
\<close>

definition faultLogSettled :: "bool \<Rightarrow> LiveCoach \<Rightarrow> LiveCoach \<times> effect list" where
  "faultLogSettled ok s = (s, SetTimeout 2000 # (if ok then [] else [UnhandledRejection]))"

definition syncingTimeout :: "LiveCoach \<Rightarrow> LiveCoach \<times> effect list" where
  "syncingTimeout s = (s\<lparr>syncing := False\<rparr>, [])"

subsection \<open>The expiry effect and the events of the component\<close>

text \<open>
  The effect \<^verbatim>\<open>useEffect(() => { const interval = setInterval(..., 1000); return () =>
  clearInterval(interval) }, [])\<close> runs once when the component mounts, and its cleanup
  when it unmounts. A tick of its interval applies \<open>sweep\<close> with the time of the tick.
\<close>

definition mount :: "LiveCoach \<Rightarrow> LiveCoach \<times> effect list" where
  "mount s = (s\<lparr>expiryInterval := Some 1000\<rparr>, [])"

definition unmount :: "LiveCoach \<Rightarrow> LiveCoach \<times> effect list" where
  "unmount s = (s\<lparr>expiryInterval := None\<rparr>, [])"

definition expiryTick :: "int \<Rightarrow> LiveCoach \<Rightarrow> LiveCoach \<times> effect list" where
  "expiryTick now s =
     (case expiryInterval s of
        None \<Rightarrow> (s, [])
      | Some period \<Rightarrow> (s\<lparr>highlights := sweep now (highlights s)\<rparr>, []))"

definition sourceEnded :: "AudioBufferSourceNode \<Rightarrow> LiveCoach \<Rightarrow> LiveCoach \<times> effect list" where
  "sourceEnded source s = (s\<lparr>audioSourcesRef := remove1 source (audioSourcesRef s)\<rparr>, [])"

datatype event =
    Mount
  | Unmount
  | ExpiryTick int
  | ToggleCamera bool
  | StartSession
  | StopSession
  | OnOpen
  | OnMessage LiveServerMessage int rat
  | OnError
  | OnClose
  | FaultLogSettled bool
  | SyncingTimeout
  | SourceEnded AudioBufferSourceNode

text \<open>
  One event of the event loop, with the reactions it leaves behind. An exception of the
  asynchronous \<^verbatim>\<open>onmessage\<close> rejects its promise, which nobody awaits: the state
  stays as it was.
\<close>

fun step :: "event \<Rightarrow> LiveCoach \<Rightarrow> LiveCoach \<times> effect list" where
  "step Mount s = mount s"
| "step Unmount s = unmount s"
| "step (ExpiryTick now) s = expiryTick now s"
| "step (ToggleCamera granted) s = toggleCamera granted s"
| "step StartSession s = startSession s"
| "step StopSession s = stopSession s"
| "step OnOpen s = onopen s"
| "step (OnMessage message now currentTime) s =
     (case onmessage message now currentTime s of Inl e \<Rightarrow> (s, []) | Inr r \<Rightarrow> r)"
| "step OnError s = onerror s"
| "step OnClose s = onclose s"
| "step (FaultLogSettled ok) s = faultLogSettled ok s"
| "step SyncingTimeout s = syncingTimeout s"
| "step (SourceEnded source) s = sourceEnded source s"

fun run :: "event list \<Rightarrow> LiveCoach \<Rightarrow> LiveCoach \<times> effect list" where
  "run [] s = (s, [])"
| "run (e # es) s =
     (let (s1, o1) = step e s;
          (s2, o2) = run es s1
      in (s2, o1 @ o2))"

subsection \<open>Sequences of calls\<close>

text \<open>A sequence of tool-call updates of the store, each with its part and its data.\<close>

fun upserts :: "(string \<times> HighlightData) list \<Rightarrow> Highlights \<Rightarrow> Highlights" where
  "upserts [] h = h"
| "upserts ((part, d) # calls) h = upserts calls (upsert part d h)"


text \<open>
  The clip that the audio part of \<^verbatim>\<open>onmessage\<close> decodes from a message, if it decodes
  one: the buffer of \<^verbatim>\<open>decodeAudioData(decode(audioData), ctx, 24000, 1)\<close>.
\<close>

definition clipOf :: "LiveServerMessage \<Rightarrow> AudioBuffer option" where
  "clipOf message =
     (case audioDataOf message of
        None \<Rightarrow> None
      | Some audioData \<Rightarrow>
          if audioData = [] then None
          else (case decode audioData of
                  Inl e \<Rightarrow> None
                | Inr bytes \<Rightarrow>
                    (case decodeAudioData bytes 24000 1 of
                       Inl e \<Rightarrow> None
                     | Inr audioBuffer \<Rightarrow> Some audioBuffer)))"

text \<open>The sources that a list of effects starts, in order.\<close>

fun started :: "effect list \<Rightarrow> AudioBufferSourceNode list" where
  "started [] = []"
| "started (SourceStart source # es) = source # started es"
| "started (e # es) = started es"






text \<open>
  The updates of the store that a list of function calls asks for at time \<open>now\<close>, and
  those of a list of tool-call messages, each with its calls, \<^verbatim>\<open>Date.now()\<close> and the
  playback clock.
\<close>

definition updatesOf :: "int \<Rightarrow> FunctionCall list \<Rightarrow> (string \<times> HighlightData) list" where
  "updatesOf now fcs =
     map (\<lambda>fc. (arg_part (args fc),
                 \<lparr>status = arg_status (args fc), feedback = arg_feedback (args fc),
                  lastUpdated = now\<rparr>))
       (filter (\<lambda>fc. name fc = ''updateAnatomyHighlight'') fcs)"

definition allUpdates :: "(FunctionCall list \<times> int \<times> rat) list \<Rightarrow> (string \<times> HighlightData) list" where
  "allUpdates tcs = concat (map (\<lambda>(fcs, now, currentTime). updatesOf now fcs) tcs)"

text \<open>The events of a list of messages, each with \<^verbatim>\<open>Date.now()\<close> and the playback clock.\<close>

definition messages :: "(LiveServerMessage \<times> int \<times> rat) list \<Rightarrow> event list" where
  "messages ms = map (\<lambda>(message, now, currentTime). OnMessage message now currentTime) ms"

text \<open>A message with one inline audio part, and a message with one tool call.\<close>

definition audioMessage :: "string \<Rightarrow> LiveServerMessage" where
  "audioMessage audioData =
     \<lparr>serverContent = Some \<lparr>modelTurn = Some [Some audioData], interrupted = False\<rparr>,
      toolCall = None\<rparr>"

definition interruptMessage :: LiveServerMessage where
  "interruptMessage =
     \<lparr>serverContent = Some \<lparr>modelTurn = None, interrupted = True\<rparr>, toolCall = None\<rparr>"

definition toolMessage :: "FunctionCall list \<Rightarrow> LiveServerMessage" where
  "toolMessage fcs = \<lparr>serverContent = None, toolCall = Some fcs\<rparr>"

definition toolMessages :: "(FunctionCall list \<times> int \<times> rat) list \<Rightarrow> event list" where
  "toolMessages tcs =
     map (\<lambda>(fcs, now, currentTime). OnMessage (toolMessage fcs) now currentTime) tcs"

text \<open>
  The payload of \<open>n\<close> frames of silence with the clip it decodes to, and a message
  that interrupts and carries three bytes of audio, which is not a whole number of
  samples.
\<close>

definition silence :: "nat \<Rightarrow> string" where
  "silence n = encode (replicate (2 * n) 0)"

definition silentClip :: "nat \<Rightarrow> AudioBuffer" where
  "silentClip n =
     \<lparr>numberOfChannels = 1, frames = n, sampleRate = 24000, channelData = [replicate n 0]\<rparr>"

definition glitchMessage :: LiveServerMessage where
  "glitchMessage =
     \<lparr>serverContent = Some \<lparr>modelTurn = Some [Some ''AAAA''], interrupted = True\<rparr>,
      toolCall = None\<rparr>"

definition updateCall :: "string \<Rightarrow> string \<Rightarrow> Status \<Rightarrow> string \<Rightarrow> FunctionCall" where
  "updateCall i part st fb =
     \<lparr>fc_id = i, name = ''updateAnatomyHighlight'',
      args = \<lparr>arg_part = part, arg_status = st, arg_feedback = fb\<rparr>\<rparr>"

subsection \<open>Example sessions\<close>

text \<open>
  A session that is active and has received one tool call; that session after two
  clips (of two seconds and of one second) have arrived at clock time 5; and the session
  after the user has stopped it and a tool call that was still in flight has arrived.
\<close>

definition kneesCall :: FunctionCall where
  "kneesCall = updateCall ''call-1'' ''knees'' critical ''Knees caving in''"

definition activeSession :: LiveCoach where
  "activeSession =
     fst (run [Mount, ToggleCamera True, StartSession, OnOpen,
               OnMessage (toolMessage [kneesCall]) 1000 0] init)"

definition playingSession :: LiveCoach where
  "playingSession =
     fst (run (messages [(audioMessage (silence 48000), 2000, 5),
                         (audioMessage (silence 24000), 2001, 5)])
            activeSession)"

definition stoppedSession :: LiveCoach where
  "stoppedSession =
     fst (run [Mount, ToggleCamera True, StartSession, OnOpen, StopSession,
               OnMessage (toolMessage [kneesCall]) 1000 0] init)"

section \<open>The base64 wire codec\<close>

lemma b64val_b64char: "n < 64 \<Longrightarrow> b64val (b64char n) = Some n"
  by (auto simp: b64val_def b64char_def Let_def)

lemma of_char_b64char:
  "n < 64 \<Longrightarrow> (of_char (b64char n) :: nat) \<in> {43, 47} \<union> {48..57} \<union> {65..90} \<union> {97..122}"
  by (auto simp: b64char_def)

lemma b64char_not_ws: "n < 64 \<Longrightarrow> \<not> is_ascii_whitespace (b64char n)"
  using of_char_b64char [of n] by (auto simp: is_ascii_whitespace_def)

lemma pad_not_ws: "\<not> is_ascii_whitespace (CHR ''='')"
  by (simp add: is_ascii_whitespace_def)

lemma b64char_not_pad: "n < 64 \<Longrightarrow> b64char n \<noteq> CHR ''=''"
proof
  assume "n < 64" and "b64char n = CHR ''=''"
  then have "(of_char (b64char n) :: nat) = 61" by simp
  with of_char_b64char [OF \<open>n < 64\<close>] show False by simp
qed

lemma sextets_lt: "\<forall>b\<in>set bs. b < 256 \<Longrightarrow> \<forall>v\<in>set (sextets bs). v < 64"
  by (induction bs rule: sextets.induct) auto

lemma octets_sextets: "\<forall>b\<in>set bs. b < 256 \<Longrightarrow> octets (sextets bs) = bs"
  by (induction bs rule: sextets.induct) auto

lemma length_sextets: "length (sextets bs) = (4 * length bs + 2) div 3"
  by (induction bs rule: sextets.induct) auto

lemma those_map_b64val:
  "\<forall>v\<in>set vs. v < 64 \<Longrightarrow> those (map b64val (map b64char vs)) = Some vs"
  by (induction vs) (auto simp: b64val_b64char)

lemma strip_padding_append:
  assumes "\<forall>c\<in>set xs. c \<noteq> CHR ''=''" and "k \<le> 2" and "(length xs + k) mod 4 = 0"
  shows "strip_padding (xs @ replicate k (CHR ''='')) = xs"
proof -
  consider "k = 0" | "k = 1" | "k = 2" using assms(2) by linarith
  then show ?thesis
  proof cases
    case 1
    then show ?thesis using assms
      by (cases xs rule: rev_cases) (auto simp: strip_padding_def)
  next
    case 2
    then show ?thesis using assms
      by (cases xs rule: rev_cases) (auto simp: strip_padding_def butlast_append)
  next
    case 3
    then have "replicate k (CHR ''='') = [CHR ''='', CHR ''='']"
      by (simp add: numeral_2_eq_2)
    then show ?thesis using assms 3
      by (auto simp: strip_padding_def butlast_append)
  qed
qed

text \<open>The length of the text and of its padding, for \<open>n\<close> bytes.\<close>

lemma pad_arith:
  fixes n :: nat
  shows "(3 - n mod 3) mod 3 \<le> 2"
    and "((4 * n + 2) div 3 + (3 - n mod 3) mod 3) mod 4 = 0"
    and "(4 * n + 2) div 3 mod 4 \<noteq> 1"
proof -
  define q r where "q = n div 3" and "r = n mod 3"
  have n: "n = 3 * q + r" and r: "r < 3" by (simp_all add: q_def r_def)
  consider "r = 0" | "r = 1" | "r = 2" using r by linarith
  then have "(3 - r) mod 3 \<le> 2 \<and> ((4 * n + 2) div 3 + (3 - r) mod 3) mod 4 = 0
      \<and> (4 * n + 2) div 3 mod 4 \<noteq> 1"
  proof cases
    case 1
    then have "(4 * n + 2) div 3 = 4 * q" using n by simp
    then show ?thesis using 1 by simp
  next
    case 2
    then have "(4 * n + 2) div 3 = 4 * q + 2" using n by simp
    then show ?thesis using 2 by (simp add: mod_Suc)
  next
    case 3
    then have "(4 * n + 2) div 3 = 4 * q + 3" using n by simp
    then show ?thesis using 3 by (simp add: mod_Suc)
  qed
  then show "(3 - n mod 3) mod 3 \<le> 2"
    and "((4 * n + 2) div 3 + (3 - n mod 3) mod 3) mod 4 = 0"
    and "(4 * n + 2) div 3 mod 4 \<noteq> 1"
    by (simp_all add: r_def)
qed

lemma atob_btoa: "atob (btoa s) = Inr s"
proof -
  define bs where "bs = map (of_char :: char \<Rightarrow> nat) s"
  define k where "k = (3 - length bs mod 3) mod 3"
  define xs where "xs = map b64char (sextets bs)"
  have bs: "\<forall>b\<in>set bs. b < 256" by (auto simp: bs_def)
  have v: "\<forall>v\<in>set (sextets bs). v < 64" using bs by (rule sextets_lt)
  have btoa: "btoa s = xs @ replicate k (CHR ''='')"
    by (simp add: btoa_def bs_def k_def xs_def Let_def)
  have nows: "filter (\<lambda>c. \<not> is_ascii_whitespace c) (btoa s) = btoa s"
    unfolding btoa using v by (auto simp: xs_def b64char_not_ws pad_not_ws filter_id_conv)
  have nopad: "\<forall>c\<in>set xs. c \<noteq> CHR ''=''" using v by (auto simp: xs_def b64char_not_pad)
  have len: "length xs = (4 * length bs + 2) div 3" by (simp add: xs_def length_sextets)
  have k2: "k \<le> 2" unfolding k_def by (rule pad_arith)
  have m4: "(length xs + k) mod 4 = 0" unfolding len k_def by (rule pad_arith)
  have strip: "strip_padding (btoa s) = xs"
    unfolding btoa using nopad k2 m4 by (rule strip_padding_append)
  have not1: "length xs mod 4 \<noteq> 1" unfolding len by (rule pad_arith)
  have th: "those (map b64val xs) = Some (sextets bs)"
    unfolding xs_def using v by (rule those_map_b64val)
  have "map char_of (octets (sextets bs)) = s"
    using octets_sextets [OF bs] by (simp add: bs_def comp_def)
  then show ?thesis
    using not1 by (simp add: atob_def nows strip th Let_def)
qed

lemma byte_of_char_of: "word_of_nat (of_char (char_of (unat b))) = (b :: byte)"
proof -
  have "unat b < 256" using unsigned_less [of b, where ?'a = nat] by simp
  then show ?thesis by simp
qed

lemma decode_encode_bytes: "decode (encode bytes) = Inr bytes"
  by (simp add: decode_def encode_def atob_btoa comp_def byte_of_char_of del: of_char_of)

text \<open>
  Claim C10. The base64 wire codec is lossless: for every byte array, \<^verbatim>\<open>decode\<close> of
  its \<^verbatim>\<open>encode\<close> does not throw and returns the same bytes.
\<close>

theorem C10_decode_encode: "decode (encode b) = Inr b"
  by (simp add: decode_def encode_def atob_btoa comp_def byte_of_char_of del: of_char_of)

section \<open>The highlight store\<close>

lemma expire_filter:
  "expire now h = (filter (\<lambda>(part, d). \<not> now - lastUpdated d > 7000) h,
                   \<exists>(part, d)\<in>set h. now - lastUpdated d > 7000)"
  by (induction h) (auto simp: Let_def)

lemma sweep_filter: "sweep now h = filter (\<lambda>(part, d). \<not> now - lastUpdated d > 7000) h"
proof -
  have "\<not> (\<exists>(part, d)\<in>set h. now - lastUpdated d > 7000)
      \<Longrightarrow> filter (\<lambda>(part, d). \<not> now - lastUpdated d > 7000) h = h"
    by (auto simp: filter_id_conv)
  then show ?thesis
    by (auto simp add: sweep_def expire_filter)
qed

lemma distinct_sweep: "distinct (map fst h) \<Longrightarrow> distinct (map fst (sweep now h))"
  by (simp add: sweep_filter distinct_map_filter)

lemma map_of_sweep:
  "distinct (map fst h) \<Longrightarrow> (part, d) \<in> set h \<Longrightarrow>
   map_of (sweep now h) part = (if now - lastUpdated d > 7000 then None else Some d)"
  by (induction h) (auto simp: sweep_filter image_iff map_of_eq_None_iff)

text \<open>
  Claim C6. For every annotation of the store (whose parts are distinct) and every
  \<open>sweep now\<close>: the annotation is removed if \<open>now - lastUpdated\<close> exceeds 7000 ms, and
  retained if it is at most 7000 ms.
\<close>

theorem C6_sweep:
  assumes "distinct (map fst h)" and "(part, d) \<in> set h"
  shows "(now - lastUpdated d > 7000 \<longrightarrow> map_of (sweep now h) part = None)
       \<and> (now - lastUpdated d \<le> 7000 \<longrightarrow> map_of (sweep now h) part = Some d)"
  using map_of_sweep [OF assms, of now] by auto

theorem C6_witness:
  "distinct (map fst [(''knees'', \<lparr>status = critical, feedback = ''a'', lastUpdated = 1000\<rparr>),
                      (''spine'', \<lparr>status = optimal, feedback = ''b'', lastUpdated = 2000\<rparr>)])
   \<and> map_of (sweep 8001 [(''knees'', \<lparr>status = critical, feedback = ''a'', lastUpdated = 1000\<rparr>),
                      (''spine'', \<lparr>status = optimal, feedback = ''b'', lastUpdated = 2000\<rparr>)]) ''knees'' = None
   \<and> map_of (sweep 8000 [(''knees'', \<lparr>status = critical, feedback = ''a'', lastUpdated = 1000\<rparr>),
                      (''spine'', \<lparr>status = optimal, feedback = ''b'', lastUpdated = 2000\<rparr>)]) ''knees''
        = Some \<lparr>status = critical, feedback = ''a'', lastUpdated = 1000\<rparr>"
  using C6_sweep [of "[(''knees'', \<lparr>status = critical, feedback = ''a'', lastUpdated = 1000\<rparr>),
                      (''spine'', \<lparr>status = optimal, feedback = ''b'', lastUpdated = 2000\<rparr>)]"
                    "''knees''" "\<lparr>status = critical, feedback = ''a'', lastUpdated = 1000\<rparr>" 8001]
        C6_sweep [of "[(''knees'', \<lparr>status = critical, feedback = ''a'', lastUpdated = 1000\<rparr>),
                      (''spine'', \<lparr>status = optimal, feedback = ''b'', lastUpdated = 2000\<rparr>)]"
                    "''knees''" "\<lparr>status = critical, feedback = ''a'', lastUpdated = 1000\<rparr>" 8000]
  by simp

lemma map_of_upsert: "map_of (upsert part d h) = (map_of h)(part \<mapsto> d)"
  by (induction h) auto

lemma fst_upsert: "fst ` set (upsert part d h) = insert part (fst ` set h)"
  using arg_cong [OF map_of_upsert [of part d h], of dom]
  by (simp add: dom_map_of_conv_image_fst)

lemma distinct_upsert: "distinct (map fst h) \<Longrightarrow> distinct (map fst (upsert part d h))"
  by (induction h) (auto simp: fst_upsert)

lemma distinct_upserts: "distinct (map fst h) \<Longrightarrow> distinct (map fst (upserts calls h))"
  by (induction calls arbitrary: h) (auto simp: distinct_upsert)

lemma map_of_upserts: "map_of (upserts calls h) = map_of h ++ map_of (rev calls)"
  by (induction calls arbitrary: h) (auto simp: map_of_upsert)

section \<open>Invariants of the event loop\<close>

lemma playAudio_frame:
  "highlights (fst (playAudio b t s)) = highlights s"
  "expiryInterval (fst (playAudio b t s)) = expiryInterval s"
  "outputAudioContextRef (fst (playAudio b t s)) = outputAudioContextRef s"
  by (simp_all add: playAudio_def Let_def)

lemma onmessage_audio_frame:
  assumes "onmessage_audio m t s = Inr (s1, e1)"
  shows "highlights s1 = highlights s" and "expiryInterval s1 = expiryInterval s"
    and "outputAudioContextRef s1 = outputAudioContextRef s"
  using assms
  by (auto simp: onmessage_audio_def playAudio_def Let_def split: option.splits if_splits sum.splits)

lemma functionCall_frame:
  "expiryInterval (fst (functionCall now fc s)) = expiryInterval s"
  "outputAudioContextRef (fst (functionCall now fc s)) = outputAudioContextRef s"
  "nextStartTimeRef (fst (functionCall now fc s)) = nextStartTimeRef s"
  "audioSourcesRef (fst (functionCall now fc s)) = audioSourcesRef s"
  by (simp_all add: functionCall_def Let_def split: prod.splits)

lemma functionCalls_frame:
  "expiryInterval (fst (functionCalls now fcs s)) = expiryInterval s"
  "outputAudioContextRef (fst (functionCalls now fcs s)) = outputAudioContextRef s"
  "nextStartTimeRef (fst (functionCalls now fcs s)) = nextStartTimeRef s"
  "audioSourcesRef (fst (functionCalls now fcs s)) = audioSourcesRef s"
  by (induction fcs arbitrary: s; simp add: functionCall_frame split: prod.splits; metis fst_conv functionCall_frame)+

lemma onmessage_toolCall_frame:
  "expiryInterval (fst (onmessage_toolCall m now s)) = expiryInterval s"
  "outputAudioContextRef (fst (onmessage_toolCall m now s)) = outputAudioContextRef s"
  "nextStartTimeRef (fst (onmessage_toolCall m now s)) = nextStartTimeRef s"
  "audioSourcesRef (fst (onmessage_toolCall m now s)) = audioSourcesRef s"
  by (simp_all add: onmessage_toolCall_def functionCalls_frame split: option.splits)

lemma onmessage_interrupted_frame:
  "highlights (fst (onmessage_interrupted m s)) = highlights s"
  "expiryInterval (fst (onmessage_interrupted m s)) = expiryInterval s"
  "outputAudioContextRef (fst (onmessage_interrupted m s)) = outputAudioContextRef s"
  by (simp_all add: onmessage_interrupted_def)

lemma distinct_functionCall:
  "distinct (map fst (highlights s)) \<Longrightarrow> distinct (map fst (highlights (fst (functionCall now fc s))))"
  by (simp add: functionCall_def Let_def distinct_upsert split: prod.splits)

lemma distinct_functionCalls:
  "distinct (map fst (highlights s)) \<Longrightarrow> distinct (map fst (highlights (fst (functionCalls now fcs s))))"
proof (induction fcs arbitrary: s)
  case Nil
  then show ?case by simp
next
  case (Cons fc fcs)
  from Cons.IH [OF distinct_functionCall [OF Cons.prems, of now fc]]
  show ?case by (simp split: prod.splits) (metis fst_conv)
qed

lemma onmessage_Inr:
  assumes "onmessage m now t s = Inr (s', effs)"
  obtains s1 e1 where "onmessage_audio m t s = Inr (s1, e1)"
    and "s' = fst (onmessage_interrupted m (fst (onmessage_toolCall m now s1)))"
    and "effs = e1 @ fst (snd (onmessage_toolCall m now s1))
                  @ snd (onmessage_interrupted m (fst (onmessage_toolCall m now s1)))
                  @ snd (snd (onmessage_toolCall m now s1))"
  using assms
  by (auto simp: onmessage_def Let_def split: sum.splits prod.splits)

lemma expiryInterval_onmessage:
  assumes "onmessage m now t s = Inr (s', effs)"
  shows "expiryInterval s' = expiryInterval s"
  using assms
  by (elim onmessage_Inr) (simp add: onmessage_interrupted_frame onmessage_toolCall_frame onmessage_audio_frame)

lemma distinct_onmessage:
  assumes "onmessage m now t s = Inr (s', effs)" and "distinct (map fst (highlights s))"
  shows "distinct (map fst (highlights s'))"
proof -
  from assms(1) obtain s1 e1 where a: "onmessage_audio m t s = Inr (s1, e1)"
    and s': "s' = fst (onmessage_interrupted m (fst (onmessage_toolCall m now s1)))"
    by (rule onmessage_Inr)
  have "distinct (map fst (highlights s1))"
    using assms(2) onmessage_audio_frame(1) [OF a] by simp
  then have "distinct (map fst (highlights (fst (onmessage_toolCall m now s1))))"
    by (simp add: onmessage_toolCall_def distinct_functionCalls split: option.splits)
  then show ?thesis by (simp add: s' onmessage_interrupted_frame)
qed

lemma distinct_step:
  "distinct (map fst (highlights s)) \<Longrightarrow> distinct (map fst (highlights (fst (step e s))))"
proof (cases e)
  case (OnMessage m now t)
  assume d: "distinct (map fst (highlights s))"
  show ?thesis
  proof (cases "onmessage m now t s")
    case (Inl err)
    then show ?thesis using d OnMessage by simp
  next
    case (Inr r)
    then show ?thesis using d OnMessage distinct_onmessage [of m now t s "fst r" "snd r"] by simp
  qed
qed (auto simp: mount_def unmount_def expiryTick_def distinct_sweep toggleCamera_def stopCamera_def
      startSession_def stopSession_def onopen_def onerror_def onclose_def faultLogSettled_def
      syncingTimeout_def sourceEnded_def Let_def split: option.splits)

lemma distinct_run:
  "distinct (map fst (highlights s)) \<Longrightarrow> distinct (map fst (highlights (fst (run evs s))))"
proof (induction evs arbitrary: s)
  case Nil
  then show ?case by simp
next
  case (Cons e evs)
  from Cons.IH [OF distinct_step [OF Cons.prems, of e]]
  show ?case by (simp split: prod.splits) (metis fst_conv)
qed

lemma expiryInterval_step:
  "e \<noteq> Mount \<Longrightarrow> e \<noteq> Unmount \<Longrightarrow> expiryInterval (fst (step e s)) = expiryInterval s"
proof (cases e)
  case (OnMessage m now t)
  show ?thesis
  proof (cases "onmessage m now t s")
    case (Inl err)
    then show ?thesis using OnMessage by simp
  next
    case (Inr r)
    then show ?thesis using OnMessage expiryInterval_onmessage [of m now t s "fst r" "snd r"] by simp
  qed
qed (auto simp: expiryTick_def toggleCamera_def stopCamera_def
      startSession_def stopSession_def onopen_def onerror_def onclose_def faultLogSettled_def
      syncingTimeout_def sourceEnded_def Let_def split: option.splits)

lemma expiryInterval_run:
  "Mount \<notin> set evs \<Longrightarrow> Unmount \<notin> set evs \<Longrightarrow> expiryInterval (fst (run evs s)) = expiryInterval s"
proof (induction evs arbitrary: s)
  case Nil
  then show ?case by simp
next
  case (Cons e evs)
  then have "expiryInterval (fst (run evs (fst (step e s)))) = expiryInterval (fst (step e s))"
    by simp
  moreover have "expiryInterval (fst (step e s)) = expiryInterval s"
    using Cons.prems by (intro expiryInterval_step) auto
  ultimately show ?case by (simp split: prod.splits) (metis fst_conv)
qed

subsection \<open>The example sessions, evaluated\<close>

lemmas handler_defs =
  mount_def unmount_def expiryTick_def toggleCamera_def stopCamera_def startSession_def
  stopSession_def onopen_def onerror_def onclose_def faultLogSettled_def syncingTimeout_def
  sourceEnded_def closeContext_def

lemmas message_defs =
  onmessage_def onmessage_audio_def onmessage_toolCall_def onmessage_interrupted_def
  functionCall_def playAudio_def audioDataOf_def isInterrupted_def
  toolMessage_def updateCall_def audioMessage_def interruptMessage_def

lemma activeSession_eq:
  "activeSession =
     \<lparr>isActive = True, hasCamera = True, permissionDenied = False,
      transcription = ''NEURAL LINK SECURED. MONITORING BIOMECHANICS.'', loading = False,
      syncing = True,
      highlights = [(''knees'', \<lparr>status = critical, feedback = ''Knees caving in'',
                                 lastUpdated = 1000\<rparr>)],
      streamRef = True, sessionPromiseRef = True, frameIntervalRef = True,
      scriptProcessorRef = True, inputAudioContextRef = Running,
      outputAudioContextRef = Running, nextStartTimeRef = 0, audioSourcesRef = [],
      expiryInterval = Some 1000\<rparr>"
  by (simp add: activeSession_def kneesCall_def init_def handler_defs message_defs)

lemma stoppedSession_eq:
  "stoppedSession =
     \<lparr>isActive = False, hasCamera = True, permissionDenied = False,
      transcription = ''Uplink terminated.'', loading = False,
      syncing = True,
      highlights = [(''knees'', \<lparr>status = critical, feedback = ''Knees caving in'',
                                 lastUpdated = 1000\<rparr>)],
      streamRef = True, sessionPromiseRef = False, frameIntervalRef = False,
      scriptProcessorRef = False, inputAudioContextRef = Closed,
      outputAudioContextRef = Closed, nextStartTimeRef = 0, audioSourcesRef = [],
      expiryInterval = Some 1000\<rparr>"
  by (simp add: stoppedSession_def kneesCall_def init_def handler_defs message_defs)

subsection \<open>One annotation per part\<close>

text \<open>The store after a function call of the tool is the \<open>upsert\<close> of its arguments.\<close>

lemma highlights_functionCall:
  "highlights (fst (functionCall now fc s)) = upserts (updatesOf now [fc]) (highlights s)"
  by (simp add: functionCall_def updatesOf_def Let_def case_prod_beta)

lemma upserts_append: "upserts (xs @ ys) h = upserts ys (upserts xs h)"
  by (induction xs arbitrary: h) auto

lemma updatesOf_Cons: "updatesOf now (fc # fcs) = updatesOf now [fc] @ updatesOf now fcs"
  by (simp add: updatesOf_def)

lemma highlights_functionCalls:
  "highlights (fst (functionCalls now fcs s)) = upserts (updatesOf now fcs) (highlights s)"
proof (induction fcs arbitrary: s)
  case Nil
  show ?case by (simp add: updatesOf_def)
next
  case (Cons fc fcs)
  have "highlights (fst (functionCalls now (fc # fcs) s))
      = upserts (updatesOf now fcs) (highlights (fst (functionCall now fc s)))"
    by (simp add: case_prod_beta Cons.IH)
  then show ?case
    by (simp only: highlights_functionCall updatesOf_Cons [of now fc fcs] upserts_append)
qed

lemma onmessage_toolMessage:
  "onmessage (toolMessage fcs) now t s
     = Inr (fst (functionCalls now fcs s),
            fst (snd (functionCalls now fcs s)) @ snd (snd (functionCalls now fcs s)))"
  by (simp add: onmessage_def onmessage_audio_def audioDataOf_def onmessage_toolCall_def
      onmessage_interrupted_def isInterrupted_def toolMessage_def case_prod_beta)

lemma highlights_toolMessages:
  "highlights (fst (run (toolMessages tcs) s)) = upserts (allUpdates tcs) (highlights s)"
proof (induction tcs arbitrary: s)
  case Nil
  show ?case by (simp add: toolMessages_def allUpdates_def)
next
  case (Cons a tcs)
  obtain fcs now t where a: "a = (fcs, now, t)" by (cases a)
  have r: "fst (run (toolMessages (a # tcs)) s)
      = fst (run (toolMessages tcs) (fst (functionCalls now fcs s)))"
    by (simp add: toolMessages_def a onmessage_toolMessage case_prod_beta)
  have u: "allUpdates (a # tcs) = updatesOf now fcs @ allUpdates tcs"
    by (simp add: allUpdates_def a)
  show ?case
    unfolding r u by (simp add: Cons.IH highlights_functionCalls upserts_append)
qed

text \<open>
  Claim C8. For every sequence of tool-call messages that the handler receives, the
  store afterwards is the store before with the updates of the calls applied in order:
  it has at most one annotation per part (the parts of its entries are distinct), and
  the annotation of a part is that of the most recent call for it (the lookup in the
  store is the lookup in the updates, latest first, and falls back to the store before
  the messages). The parts stay distinct along every run of the component from its
  initial state.
\<close>

theorem C8_upserts:
  assumes "distinct (map fst (highlights s))"
  shows "highlights (fst (run (toolMessages tcs) s)) = upserts (allUpdates tcs) (highlights s)
       \<and> distinct (map fst (highlights (fst (run (toolMessages tcs) s))))
       \<and> map_of (highlights (fst (run (toolMessages tcs) s)))
           = map_of (highlights s) ++ map_of (rev (allUpdates tcs))
       \<and> distinct (map fst (highlights (fst (run evs init))))"
  using assms
  by (simp add: highlights_toolMessages distinct_upserts map_of_upserts distinct_run init_def)

theorem C8_witness:
  "distinct (map fst (highlights activeSession))
   \<and> highlights (fst (run (toolMessages
        [([updateCall ''call-2'' ''spine'' optimal ''Neutral spine'',
           updateCall ''call-3'' ''knees'' warning ''Track over toes''], 2000, 0),
         ([updateCall ''call-4'' ''knees'' optimal ''Good depth'',
           updateCall ''call-5'' ''head'' warning ''Chin up''], 3000, 1)]) activeSession))
      = [(''knees'', \<lparr>status = optimal, feedback = ''Good depth'', lastUpdated = 3000\<rparr>),
         (''spine'', \<lparr>status = optimal, feedback = ''Neutral spine'', lastUpdated = 2000\<rparr>),
         (''head'', \<lparr>status = warning, feedback = ''Chin up'', lastUpdated = 3000\<rparr>)]"
proof -
  have d: "distinct (map fst (highlights activeSession))"
    by (simp add: activeSession_eq)
  show ?thesis
    using d C8_upserts [OF d, of
        "[([updateCall ''call-2'' ''spine'' optimal ''Neutral spine'',
            updateCall ''call-3'' ''knees'' warning ''Track over toes''], 2000, 0),
          ([updateCall ''call-4'' ''knees'' optimal ''Good depth'',
            updateCall ''call-5'' ''head'' warning ''Chin up''], 3000, 1)]" "[]"]
    by (simp add: allUpdates_def updatesOf_def updateCall_def activeSession_eq
        del: run.simps)
qed

section \<open>The lifetime of the expiry sweep\<close>

lemma expiryInterval_armed_step:
  "e \<noteq> Unmount \<Longrightarrow> expiryInterval s = Some 1000 \<Longrightarrow> expiryInterval (fst (step e s)) = Some 1000"
  by (cases "e = Mount") (simp_all add: mount_def expiryInterval_step)

lemma expiryInterval_armed_run:
  "Unmount \<notin> set evs \<Longrightarrow> expiryInterval s = Some 1000 \<Longrightarrow> expiryInterval (fst (run evs s)) = Some 1000"
proof (induction evs arbitrary: s)
  case Nil
  then show ?case by simp
next
  case (Cons e evs)
  then have "expiryInterval (fst (step e s)) = Some 1000"
    by (intro expiryInterval_armed_step) auto
  with Cons have "expiryInterval (fst (run evs (fst (step e s)))) = Some 1000" by simp
  then show ?case by (simp split: prod.splits) (metis fst_conv)
qed

text \<open>
  Claim C7, as amended. The interval of the expiry sweep is registered with a period of
  1000 ms when the component mounts and stays registered, whatever events of the session
  follow (start, stop, messages, errors, close), until the component unmounts: a tick
  applies the sweep whether or not a session is active, and after the unmount a tick
  does nothing.
\<close>

theorem C7_expiry_interval:
  assumes "Unmount \<notin> set evs"
  shows "expiryInterval (fst (run (Mount # evs) s)) = Some 1000
       \<and> highlights (fst (step (ExpiryTick now) (fst (run (Mount # evs) s))))
           = sweep now (highlights (fst (run (Mount # evs) s)))
       \<and> expiryInterval (fst (step Unmount (fst (run (Mount # evs) s)))) = None
       \<and> highlights (fst (step (ExpiryTick now) (fst (step Unmount (fst (run (Mount # evs) s))))))
           = highlights (fst (run (Mount # evs) s))"
proof -
  have "expiryInterval (fst (run evs (fst (step Mount s)))) = Some 1000"
    using assms by (intro expiryInterval_armed_run) (simp_all add: mount_def)
  then have a: "expiryInterval (fst (run (Mount # evs) s)) = Some 1000"
    by (simp split: prod.splits) (metis fst_conv)
  then show ?thesis
    by (simp add: expiryTick_def unmount_def)
qed

theorem C7_witness:
  "Unmount \<notin> set [ToggleCamera True, StartSession, OnOpen, StopSession,
                    OnMessage (toolMessage [kneesCall]) 1000 0]
   \<and> \<not> isActive stoppedSession
   \<and> expiryInterval stoppedSession = Some 1000
   \<and> highlights (fst (step (ExpiryTick 9000) stoppedSession)) = sweep 9000 (highlights stoppedSession)
   \<and> expiryInterval (fst (step Unmount stoppedSession)) = None
   \<and> highlights (fst (step (ExpiryTick 9000) (fst (step Unmount stoppedSession))))
       = highlights stoppedSession"
  using C7_expiry_interval [of "[ToggleCamera True, StartSession, OnOpen, StopSession,
                    OnMessage (toolMessage [kneesCall]) 1000 0]" init 9000]
  by (simp add: stoppedSession_def [symmetric] stoppedSession_eq del: run.simps step.simps)

text \<open>
  The claim as stated fails: before any session the interval is registered, and after
  the session has been stopped a tick still sweeps the store (here an annotation of a
  tool call that arrived after the stop).
\<close>

theorem C7_counterexample:
  "\<not> isActive (fst (run [Mount] init)) \<and> expiryInterval (fst (run [Mount] init)) = Some 1000
   \<and> \<not> isActive stoppedSession \<and> expiryInterval stoppedSession = Some 1000
   \<and> highlights stoppedSession \<noteq> []
   \<and> highlights (fst (step (ExpiryTick 9000) stoppedSession)) = []"
  by (simp add: stoppedSession_eq init_def mount_def expiryTick_def sweep_def)

section \<open>Transport errors\<close>

text \<open>
  Claim C1, as amended. On a transport error the handler only logs the error and shows
  the link-failure status; it leaves the rest of the state as it is and attempts no
  reconnection. The stop (no producer running, sources stopped, store cleared, status
  \<^verbatim>\<open>Uplink terminated.\<close>, and then the channel closed from a reaction of the session
  promise) is what the close event runs.
\<close>

theorem C1_onerror:
  "step OnError s = (s\<lparr>transcription := ''LINK FAILURE. RE-ESTABLISHING...''\<rparr>, [ConsoleError])
   \<and> Connect \<notin> set (snd (step OnError s))
   \<and> step OnClose s = stopSession s
   \<and> \<not> isActive (fst (stopSession s))
   \<and> \<not> frameIntervalRef (fst (stopSession s))
   \<and> \<not> scriptProcessorRef (fst (stopSession s))
   \<and> \<not> sessionPromiseRef (fst (stopSession s))
   \<and> highlights (fst (stopSession s)) = []
   \<and> audioSourcesRef (fst (stopSession s)) = []
   \<and> transcription (fst (stopSession s)) = ''Uplink terminated.''
   \<and> snd (stopSession s)
       = map SourceStop (audioSourcesRef s) @ (if sessionPromiseRef s then [SessionClose] else [])"
  by (simp add: onerror_def onclose_def stopSession_def)

text \<open>
  The claim as stated fails: after a transport error in an active session the session
  is still active, its producers run, its channel is open and the store is not cleared.
\<close>

theorem C1_counterexample:
  "isActive activeSession
   \<and> fst (step OnError activeSession) \<noteq> fst (stopSession activeSession)
   \<and> isActive (fst (step OnError activeSession))
   \<and> frameIntervalRef (fst (step OnError activeSession))
   \<and> scriptProcessorRef (fst (step OnError activeSession))
   \<and> sessionPromiseRef (fst (step OnError activeSession))
   \<and> highlights (fst (step OnError activeSession)) \<noteq> []
   \<and> SessionClose \<notin> set (snd (step OnError activeSession))"
  by (simp add: activeSession_eq onerror_def stopSession_def)

section \<open>Decoding inbound audio\<close>

lemma length_bytes_int16: "length (bytes_int16 bytes) = length bytes div 2"
  by (induction bytes rule: bytes_int16.induct) simp_all

lemma foldl_store:
  "foldl (\<lambda>cd i. if i < length cd then cd[i := f i] else cd) cd [0..<k]
     = map (\<lambda>i. if i < k then f i else cd ! i) [0..<length cd]"
proof (induction k)
  case 0
  show ?case by (simp add: map_nth)
next
  case (Suc k)
  show ?case
    by (simp add: Suc) (auto intro!: nth_equalityI simp: nth_list_update)
qed

lemma fillChannel_replicate:
  assumes "len \<le> nat \<lceil>frameCount\<rceil>"
  shows "fillChannel dataInt16 numChannels frameCount channel (replicate len 0)
     = map (\<lambda>i. rat_of_int (sint (dataInt16 ! (i * numChannels + channel))) / 32768) [0..<len]"
  using assms by (simp add: fillChannel_def foldl_store)

lemma floor_frameCount: "nat \<lfloor>rat_of_nat m / rat_of_nat n\<rfloor> = m div n"
  by (simp add: floor_divide_of_nat_eq)

lemma ceiling_frameCount: "m div n \<le> nat \<lceil>rat_of_nat m / rat_of_nat n\<rceil>"
proof -
  have "\<lfloor>rat_of_nat m / rat_of_nat n\<rfloor> \<le> \<lceil>rat_of_nat m / rat_of_nat n\<rceil>"
    by (rule floor_le_ceiling)
  then have "nat \<lfloor>rat_of_nat m / rat_of_nat n\<rfloor> \<le> nat \<lceil>rat_of_nat m / rat_of_nat n\<rceil>"
    by (rule nat_mono)
  then show ?thesis by (simp add: floor_frameCount)
qed

lemma decodeAudioData_eq:
  assumes "0 < numChannels" and "0 < rate"
  shows "decodeAudioData bytes rate numChannels =
     (if odd (length bytes) then Inl RangeError
      else if length bytes div 2 div numChannels = 0 then Inl NotSupportedError
      else Inr \<lparr>numberOfChannels = numChannels,
                frames = length bytes div 2 div numChannels, sampleRate = rate,
                channelData =
                  map (\<lambda>channel.
                         map (\<lambda>i. rat_of_int (sint (bytes_int16 bytes ! (i * numChannels + channel)))
                                     / 32768)
                           [0..<length bytes div 2 div numChannels])
                    [0..<numChannels]\<rparr>)"
proof -
  define len where "len = length bytes div 2 div numChannels"
  define frameCount where
    "frameCount = rat_of_nat (length (bytes_int16 bytes)) / rat_of_nat numChannels"
  have fl: "nat \<lfloor>frameCount\<rfloor> = len"
    by (simp add: frameCount_def len_def floor_frameCount length_bytes_int16)
  have ce: "len \<le> nat \<lceil>frameCount\<rceil>"
    unfolding frameCount_def len_def length_bytes_int16 by (rule ceiling_frameCount)
  have fill: "map (\<lambda>channel. fillChannel (bytes_int16 bytes) numChannels frameCount channel
                      (replicate numChannels (replicate len 0) ! channel)) [0..<numChannels]
      = map (\<lambda>channel.
               map (\<lambda>i. rat_of_int (sint (bytes_int16 bytes ! (i * numChannels + channel))) / 32768)
                 [0..<len]) [0..<numChannels]"
    by (rule map_cong) (simp_all add: fillChannel_replicate [OF ce])
  have "decodeAudioData bytes rate numChannels =
     (if odd (length bytes) then Inl RangeError
      else case createBuffer numChannels len rate of
             Inl e \<Rightarrow> Inl e
           | Inr buf \<Rightarrow>
               Inr (buf\<lparr>channelData :=
                      map (\<lambda>channel. fillChannel (bytes_int16 bytes) numChannels frameCount channel
                                       (channelData buf ! channel))
                        [0..<numChannels]\<rparr>))"
    by (simp add: decodeAudioData_def newInt16Array_def Let_def frameCount_def [symmetric] fl)
  also have "\<dots> =
     (if odd (length bytes) then Inl RangeError
      else if len = 0 then Inl NotSupportedError
      else Inr \<lparr>numberOfChannels = numChannels, frames = len, sampleRate = rate,
                channelData =
                  map (\<lambda>channel.
                         map (\<lambda>i. rat_of_int (sint (bytes_int16 bytes ! (i * numChannels + channel)))
                                     / 32768)
                           [0..<len])
                    [0..<numChannels]\<rparr>)"
    using assms by (simp add: createBuffer_def fill)
  finally show ?thesis by (simp add: len_def)
qed

lemma decode_3_bytes: "decode ''AAAA'' = Inr [0, 0, 0]"
  by code_simp

text \<open>
  Claim C5, as amended. \<^verbatim>\<open>decodeAudioData\<close> has no check of its own and no
  malformed-frame error: for a channel count and a rate that the platform accepts, it
  throws a \<^verbatim>\<open>RangeError\<close> exactly when the byte length is odd, a
  \<^verbatim>\<open>NotSupportedError\<close> when the even length holds no complete frame, and otherwise
  returns a buffer of \<open>length div 2 div numChannels\<close> frames per channel, whether or not
  the length is a multiple of \<open>2 * numChannels\<close>; the samples of an incomplete last frame
  are left out. A message whose handler throws is dropped: the state of the component
  stays as it was and nothing is played.
\<close>

theorem C5_decodeAudioData:
  assumes "1 \<le> numChannels" and "numChannels \<le> 32" and "8000 \<le> rate" and "rate \<le> 96000"
  shows "decodeAudioData bytes rate numChannels =
     (if odd (length bytes) then Inl RangeError
      else if length bytes div 2 div numChannels = 0 then Inl NotSupportedError
      else Inr \<lparr>numberOfChannels = numChannels,
                frames = length bytes div 2 div numChannels, sampleRate = rate,
                channelData =
                  map (\<lambda>channel.
                         map (\<lambda>i. rat_of_int (sint (bytes_int16 bytes ! (i * numChannels + channel)))
                                     / 32768)
                           [0..<length bytes div 2 div numChannels])
                    [0..<numChannels]\<rparr>)
   \<and> (onmessage m now t s = Inl e \<longrightarrow> step (OnMessage m now t) s = (s, []))"
  using assms by (simp add: decodeAudioData_eq)

theorem C5_witness:
  "(1 :: nat) \<le> 1 \<and> (1 :: nat) \<le> 32 \<and> (8000 :: nat) \<le> 24000 \<and> (24000 :: nat) \<le> 96000
   \<and> decodeAudioData [0, 0, 0] 24000 1 = Inl RangeError
   \<and> decodeAudioData [1, 0, 2, 0] 24000 1
       = Inr \<lparr>numberOfChannels = 1, frames = 2, sampleRate = 24000,
              channelData = [[1 / 32768, 2 / 32768]]\<rparr>
   \<and> onmessage (audioMessage ''AAAA'') 2000 5 activeSession = Inl RangeError
   \<and> step (OnMessage (audioMessage ''AAAA'') 2000 5) activeSession = (activeSession, [])"
proof -
  have om: "onmessage (audioMessage ''AAAA'') 2000 5 activeSession = Inl RangeError"
    by (simp add: onmessage_def onmessage_audio_def audioDataOf_def audioMessage_def
        decode_3_bytes decodeAudioData_def newInt16Array_def activeSession_eq)
  have b: "bytes_int16 [1, 0, 2, 0] = [1, 2]" by simp
  show ?thesis
    using C5_decodeAudioData [of 1 24000 "[0, 0, 0]" "audioMessage ''AAAA''" 2000 5
        activeSession RangeError]
      C5_decodeAudioData [of 1 24000 "[1, 0, 2, 0]" "audioMessage ''AAAA''" 2000 5
        activeSession RangeError] om
    by (simp add: b upt_rec del: step.simps)
qed

text \<open>
  The claim as stated fails in both directions: six bytes for two channels are not a
  multiple of four and are decoded to one frame; no bytes are a multiple of two and are
  rejected.
\<close>

theorem C5_counterexample:
  "length [1, 0, 2, 0, 3, 0 :: byte] mod (2 * 2) \<noteq> 0
   \<and> decodeAudioData [1, 0, 2, 0, 3, 0] 24000 2
       = Inr \<lparr>numberOfChannels = 2, frames = 1, sampleRate = 24000,
              channelData = [[1 / 32768], [2 / 32768]]\<rparr>
   \<and> length ([] :: byte list) mod (2 * 1) = 0
   \<and> decodeAudioData [] 24000 1 = Inl NotSupportedError"
proof -
  have b: "bytes_int16 [1, 0, 2, 0, 3, 0] = [1, 2, 3]" by simp
  show ?thesis
    by (simp add: decodeAudioData_eq b upt_rec)
qed

section \<open>The round trip of the PCM codec\<close>

lemma int16_of_bytes: "ucast (ucast w :: byte) + push_bit 8 (ucast (ucast (drop_bit 8 w) :: byte)) = (w :: int16)"
proof -
  have lo: "(ucast (ucast w :: byte) :: int16) = take_bit 8 w"
    by (rule bit_word_eqI) (auto simp: bit_simps)
  have hi: "(ucast (ucast (drop_bit 8 w) :: byte) :: int16) = drop_bit 8 w"
    by (rule bit_word_eqI) (auto simp: bit_simps dest: bit_imp_le_length)
  show ?thesis
    unfolding lo hi by (metis add.commute bits_ident)
qed

lemma bytes_int16_bytes: "bytes_int16 (concat (map int16_bytes ws)) = ws"
  by (induction ws) (simp_all add: int16_bytes_def int16_of_bytes)

lemma length_int16_bytes: "length (concat (map int16_bytes ws)) = 2 * length ws"
  by (induction ws) (simp_all add: int16_bytes_def)

text \<open>The round trip in closed form, for a buffer that is not empty.\<close>

lemma roundTrip_eq:
  assumes "samples \<noteq> []" and "0 < rate"
  shows "roundTrip rate samples
     = Inr (map (\<lambda>x. rat_of_int (sint (toInt16 (x * 32768))) / 32768) samples)"
proof -
  define ws where "ws = map (\<lambda>x. toInt16 (x * 32768)) samples"
  define bytes where "bytes = concat (map int16_bytes ws)"
  have len: "length bytes = 2 * length ws" by (simp add: bytes_def length_int16_bytes)
  have n: "0 < length ws" using assms(1) by (simp add: ws_def)
  have d: "decode (data (createBlob samples)) = Inr bytes"
    by (simp add: createBlob_def Let_def decode_encode_bytes bytes_def ws_def)
  have "decodeAudioData bytes rate 1
      = Inr \<lparr>numberOfChannels = 1, frames = length ws, sampleRate = rate,
             channelData = [map (\<lambda>i. rat_of_int (sint (ws ! i)) / 32768) [0..<length ws]]\<rparr>"
    using n assms(2)
    by (simp add: decodeAudioData_eq len bytes_int16_bytes bytes_def [symmetric])
      (simp add: bytes_def bytes_int16_bytes)
  also have "map (\<lambda>i. rat_of_int (sint (ws ! i)) / 32768) [0..<length ws]
      = map (\<lambda>w. rat_of_int (sint w) / 32768) ws"
    by (rule nth_equalityI) simp_all
  finally show ?thesis
    by (simp add: roundTrip_def d) (simp add: ws_def comp_def)
qed

lemma toInt16_full_scale: "sint (toInt16 (1 * 32768)) = - 32768"
  by (simp add: toInt16_def trunc_def)

lemma trunc_bounds:
  assumes "- 1 \<le> x" and "x < 1"
  shows "- 32768 \<le> trunc (x * 32768)" and "trunc (x * 32768) < 32768"
    and "\<bar>rat_of_int (trunc (x * 32768)) - x * 32768\<bar> < 1"
proof -
  have lo: "- 32768 \<le> x * 32768" and hi: "x * 32768 < 32768" using assms by simp_all
  have "- 32768 \<le> \<lfloor>x * 32768\<rfloor>" using lo by (simp add: le_floor_iff)
  moreover have "- 32768 \<le> \<lceil>x * 32768\<rceil>" using lo by (simp add: le_ceiling_iff)
  ultimately show "- 32768 \<le> trunc (x * 32768)" by (simp add: trunc_def)
  have "\<lfloor>x * 32768\<rfloor> < 32768" using hi by (simp add: floor_less_iff)
  moreover have "x < 0 \<Longrightarrow> \<lceil>x * 32768\<rceil> < 32768"
    by (simp add: ceiling_less_iff)
  ultimately show "trunc (x * 32768) < 32768" by (simp add: trunc_def not_le)
  show "\<bar>rat_of_int (trunc (x * 32768)) - x * 32768\<bar> < 1"
    by (simp add: trunc_def; linarith)
qed

lemma sint_toInt16:
  assumes "- 1 \<le> x" and "x < 1"
  shows "sint (toInt16 (x * 32768)) = trunc (x * 32768)"
  using trunc_bounds(1,2) [OF assms]
  by (simp add: toInt16_def signed_of_int signed_take_bit_int_eq_self)

lemma quantization_step:
  assumes "- 1 \<le> x" and "x < 1"
  shows "\<bar>rat_of_int (sint (toInt16 (x * 32768))) / 32768 - x\<bar> < 1 / 32768"
proof -
  have "\<bar>rat_of_int (trunc (x * 32768)) - x * 32768\<bar> < 1"
    using assms by (rule trunc_bounds)
  moreover have "rat_of_int (trunc (x * 32768)) / 32768 - x
      = (rat_of_int (trunc (x * 32768)) - x * 32768) / 32768"
    by (simp add: diff_divide_distrib)
  ultimately have "\<bar>rat_of_int (trunc (x * 32768)) / 32768 - x\<bar> < 1 / 32768"
    by (simp only: abs_divide)
  then show ?thesis by (simp only: sint_toInt16 [OF assms])
qed

text \<open>
  Below full scale the round trip is within one quantization step: the defect of the
  encoder is confined to samples equal to \<open>1\<close>.
\<close>

lemma roundTrip_below_full_scale:
  assumes "samples \<noteq> []" and "0 < rate" and "\<forall>x\<in>set samples. - 1 \<le> x \<and> x < 1"
  shows "\<exists>out. roundTrip rate samples = Inr out \<and> length out = length samples
           \<and> (\<forall>i<length samples. \<bar>out ! i - samples ! i\<bar> < 1 / 32768)"
proof -
  define out where "out = map (\<lambda>x. rat_of_int (sint (toInt16 (x * 32768))) / 32768) samples"
  have "roundTrip rate samples = Inr out"
    using assms(1,2) by (simp add: roundTrip_eq out_def)
  moreover have "length out = length samples" by (simp add: out_def)
  moreover have "\<bar>out ! i - samples ! i\<bar> < 1 / 32768" if "i < length samples" for i
  proof -
    have "- 1 \<le> samples ! i \<and> samples ! i < 1" using assms(3) that by simp
    then have "\<bar>rat_of_int (sint (toInt16 (samples ! i * 32768))) / 32768 - samples ! i\<bar>
        < 1 / 32768"
      by (intro quantization_step) simp_all
    then show ?thesis using that by (simp only: out_def nth_map)
  qed
  ultimately show ?thesis by blast
qed

lemma roundTrip_full_scale:
  assumes "0 < n" and "0 < rate"
  shows "roundTrip rate (replicate n 1) = Inr (replicate n (- 1))"
proof -
  have "rat_of_int (sint (toInt16 (1 * 32768))) / 32768 = - 1"
    unfolding toInt16_full_scale by simp
  then show ?thesis
    using assms by (simp add: roundTrip_eq map_replicate)
qed

text \<open>
  Claim C2. The round trip of a buffer of zeros is a buffer of zeros, but a buffer of
  samples \<open>1\<close> (here the 4096 samples of one audio-process event) comes back as a
  buffer of samples \<open>-1\<close>: \<open>1 * 32768\<close> does not fit 16 bits and the store wraps it
  to \<open>-32768\<close>. The claim asks for values within \<open>1 / 32768\<close> of \<open>1\<close>.
\<close>

theorem C2_full_scale:
  "roundTrip 16000 (replicate 4096 1) = Inr (replicate 4096 (- 1))
   \<and> roundTrip 16000 (replicate 4096 0) = Inr (replicate 4096 0)"
proof -
  have "rat_of_int (sint (toInt16 (0 * 32768))) / 32768 = 0"
    by (simp add: toInt16_def trunc_def)
  then have "roundTrip 16000 (replicate 4096 0) = Inr (replicate 4096 0)"
    by (simp add: roundTrip_eq map_replicate)
  then show ?thesis
    by (simp add: roundTrip_full_scale)
qed

section \<open>Float64 rounding\<close>

lemma round_half_even_of_int: "round_half_even (of_int n) = n"
  by (simp add: round_half_even_def)

text \<open>
  A dyadic number with a significand below \<open>2\<^sup>5\<^sup>3\<close> is a float64 number. The
  lemma is proved for any precision \<open>P\<close> and any smallest exponent \<open>N\<close>.
\<close>

lemma round_dyadic:
  fixes m :: int and k N P :: nat
  assumes "\<bar>m\<bar> < 2 ^ P" and "k \<le> N"
  defines "x \<equiv> (of_int m / 2 ^ k :: rat)"
  defines "y \<equiv> \<bar>x\<bar> * 2 ^ N"
  defines "s \<equiv> nat (bitlen \<lfloor>y\<rfloor> - int P)"
  shows "sgn x * of_int (round_half_even (y / 2 ^ s)) * 2 ^ s / 2 ^ N = x"
proof -
  from assms(2) obtain j where N: "N = k + j" by (auto simp: le_iff_add)
  have y: "y = of_int (\<bar>m\<bar> * 2 ^ j)"
    by (simp add: y_def x_def abs_divide N power_add)
  have "\<bar>m\<bar> * 2 ^ j < 2 ^ P * 2 ^ j"
    using assms(1) by (intro mult_strict_right_mono) simp_all
  moreover have "\<lfloor>y\<rfloor> = \<bar>m\<bar> * 2 ^ j"
    unfolding y by (rule floor_of_int)
  ultimately have "\<lfloor>y\<rfloor> < 2 ^ (P + j)"
    by (simp only: power_add)
  then have "bitlen \<lfloor>y\<rfloor> \<le> int (P + j)"
    by (simp add: bitlen_le_iff_power nat_add_distrib)
  then have "s \<le> j" by (simp add: s_def)
  then obtain i where j: "j = s + i" by (auto simp: le_iff_add)
  have "y / 2 ^ s = of_int (\<bar>m\<bar> * 2 ^ i)"
    unfolding y by (simp add: j power_add)
  then have "of_int (round_half_even (y / 2 ^ s)) * (2 :: rat) ^ s = y"
    unfolding y by (simp only: round_half_even_of_int) (simp add: j power_add)
  then have "sgn x * of_int (round_half_even (y / 2 ^ s)) * 2 ^ s / 2 ^ N = sgn x * y / 2 ^ N"
    by (simp only: mult.assoc)
  also have "\<dots> = sgn x * \<bar>x\<bar>" by (simp add: y_def)
  finally show ?thesis by (simp add: sgn_mult_abs)
qed

lemma fl64_dyadic:
  assumes "\<bar>m\<bar> < 2 ^ 53" and "k \<le> 1074"
  shows "fl64 (of_int m / 2 ^ k) = of_int m / 2 ^ k"
  unfolding fl64_def Let_def
  using round_dyadic [of m 53 k 1074, OF assms] by (simp only: of_nat_numeral)

lemma fl64_of_int: "\<bar>m\<bar> < 2 ^ 53 \<Longrightarrow> fl64 (of_int m) = of_int m"
  using fl64_dyadic [of m 0] by simp

section \<open>Playback scheduling\<close>

lemma started_append: "started (xs @ ys) = started xs @ started ys"
  by (induction xs rule: started.induct) simp_all

lemma started_stops: "started (map SourceStop srcs) = []"
  by (induction srcs) simp_all

lemma started_functionCall:
  "started (fst (snd (functionCall now fc s))) = []"
  "started (snd (snd (functionCall now fc s))) = []"
  by (simp_all add: functionCall_def Let_def case_prod_beta)

lemma started_functionCalls:
  "started (fst (snd (functionCalls now fcs s))) = []"
  "started (snd (snd (functionCalls now fcs s))) = []"
  by (induction fcs arbitrary: s)
    (simp_all add: started_append started_functionCall case_prod_beta)

lemma started_toolCall:
  "started (fst (snd (onmessage_toolCall m now s))) = []"
  "started (snd (snd (onmessage_toolCall m now s))) = []"
  by (simp_all add: onmessage_toolCall_def started_functionCalls split: option.splits)

lemma started_interrupted: "started (snd (onmessage_interrupted m s)) = []"
  by (simp add: onmessage_interrupted_def started_stops)

lemma clipOf_Some:
  assumes "clipOf m = Some b" and "outputAudioContextRef s \<noteq> Null"
  shows "onmessage_audio m t s = Inr (playAudio b t s)"
proof -
  from assms(1) obtain d bytes where "audioDataOf m = Some d" "d \<noteq> []"
    and "decode d = Inr bytes" and "decodeAudioData bytes 24000 1 = Inr b"
    by (auto simp: clipOf_def split: option.splits if_splits sum.splits)
  then show ?thesis
    using assms(2) by (simp add: onmessage_audio_def)
qed

text \<open>What one message with a decodable clip does to the playback.\<close>

lemma onmessage_clip:
  assumes "clipOf m = Some b" and "outputAudioContextRef s \<noteq> Null"
  shows "onmessage m now t s =
     Inr (fst (onmessage_interrupted m (fst (onmessage_toolCall m now (fst (playAudio b t s))))),
          snd (playAudio b t s) @ fst (snd (onmessage_toolCall m now (fst (playAudio b t s))))
            @ snd (onmessage_interrupted m (fst (onmessage_toolCall m now (fst (playAudio b t s)))))
            @ snd (snd (onmessage_toolCall m now (fst (playAudio b t s)))))"
  using assms by (simp add: onmessage_def clipOf_Some case_prod_beta)

lemma step_audio_message:
  assumes "clipOf m = Some b" and "outputAudioContextRef s \<noteq> Null"
  shows "started (snd (step (OnMessage m now t) s))
           = [\<lparr>buffer = b, startedAt = max (nextStartTimeRef s) t\<rparr>]"
    and "outputAudioContextRef (fst (step (OnMessage m now t) s)) = outputAudioContextRef s"
    and "\<not> isInterrupted m \<Longrightarrow> nextStartTimeRef (fst (step (OnMessage m now t) s))
           = fl64 (max (nextStartTimeRef s) t + duration b)"
proof -
  note om = onmessage_clip [OF assms, of now t]
  show "started (snd (step (OnMessage m now t) s))
           = [\<lparr>buffer = b, startedAt = max (nextStartTimeRef s) t\<rparr>]"
    by (simp add: om started_append started_toolCall started_interrupted)
      (simp add: playAudio_def Let_def)
  show "outputAudioContextRef (fst (step (OnMessage m now t) s)) = outputAudioContextRef s"
    by (simp add: om onmessage_toolCall_frame onmessage_interrupted_frame playAudio_frame)
  show "nextStartTimeRef (fst (step (OnMessage m now t) s))
           = fl64 (max (nextStartTimeRef s) t + duration b)" if "\<not> isInterrupted m"
    using that by (simp add: om onmessage_interrupted_def onmessage_toolCall_frame)
      (simp add: playAudio_def Let_def)
qed




subsection \<open>Clips of silence\<close>

lemma encode_nonempty: "bytes \<noteq> [] \<Longrightarrow> encode bytes \<noteq> []"
proof -
  assume "bytes \<noteq> []"
  then have "0 < length bytes" by simp
  then have "0 < (4 * length bytes + 2) div 3" by arith
  then have "0 < length (encode bytes)"
    by (simp add: encode_def btoa_def Let_def length_sextets)
  then show ?thesis by auto
qed

lemma bytes_int16_zeros: "bytes_int16 (replicate (2 * n) 0) = replicate n 0"
  by (induction n) simp_all

lemma clipOf_silence:
  assumes "0 < n"
  shows "clipOf (audioMessage (silence n)) = Some (silentClip n)"
proof -
  have ne: "silence n \<noteq> []"
    unfolding silence_def using assms by (intro encode_nonempty) simp
  have "map (\<lambda>i. rat_of_int (sint (replicate n (0 :: int16) ! i)) / 32768) [0..<n]
      = replicate n 0"
    by (rule nth_equalityI) simp_all
  then have "decodeAudioData (replicate (2 * n) 0) 24000 1 = Inr (silentClip n)"
    using assms by (simp add: decodeAudioData_eq bytes_int16_zeros silentClip_def)
  then show ?thesis
    using ne by (simp add: clipOf_def audioDataOf_def audioMessage_def)
      (simp add: silence_def decode_encode_bytes)
qed

lemma duration_silentClip: "duration (silentClip n) = fl64 (of_nat n / 24000)"
  by (simp add: duration_def silentClip_def)

lemma fl64_numeral: "(numeral k :: int) < 2 ^ 53 \<Longrightarrow> fl64 (numeral k) = numeral k"
  using fl64_of_int [of "numeral k"] by simp

lemma fl64_1: "fl64 1 = 1"
  using fl64_of_int [of 1] by simp

lemma not_interrupted_audioMessage: "\<not> isInterrupted (audioMessage d)"
  by (simp add: isInterrupted_def audioMessage_def)

lemma toolCall_audioMessage: "onmessage_toolCall (audioMessage d) now s = (s, [], [])"
  by (simp add: onmessage_toolCall_def audioMessage_def)

lemma outputAudioContextRef_activeSession: "outputAudioContextRef activeSession \<noteq> Null"
  by (simp add: activeSession_eq)

lemma playingSession_eq:
  "playingSession = activeSession
     \<lparr>nextStartTimeRef := 8,
      audioSourcesRef := [\<lparr>buffer = silentClip 48000, startedAt = 5\<rparr>,
                          \<lparr>buffer = silentClip 24000, startedAt = 7\<rparr>]\<rparr>"
  by (simp add: playingSession_def messages_def onmessage_clip clipOf_silence
      outputAudioContextRef_activeSession toolCall_audioMessage onmessage_interrupted_def
      not_interrupted_audioMessage playAudio_def Let_def duration_silentClip fl64_numeral
      fl64_1 activeSession_eq)

subsection \<open>The schedule of a sequence of clips\<close>






section \<open>Interruption\<close>

lemma onmessage_audio_sources:
  assumes "onmessage_audio m t s = Inr (s1, e1)"
  shows "audioSourcesRef s1 = audioSourcesRef s @ started e1"
  using assms
  by (auto simp: onmessage_audio_def playAudio_def Let_def
      split: option.splits if_splits sum.splits)

lemma interruption_handled:
  assumes "isInterrupted m" and "onmessage m now t s = Inr (s', effs)"
  shows "audioSourcesRef s' = [] \<and> nextStartTimeRef s' = 0
       \<and> (\<forall>src\<in>set (audioSourcesRef s) \<union> set (started effs). SourceStop src \<in> set effs)
       \<and> (\<forall>m2 now2 t2 b. clipOf m2 = Some b \<and> 0 \<le> t2 \<and> outputAudioContextRef s \<noteq> Null
             \<longrightarrow> started (snd (step (OnMessage m2 now2 t2) s'))
                   = [\<lparr>buffer = b, startedAt = t2\<rparr>])"
proof -
  from assms(2) obtain s1 e1 where a: "onmessage_audio m t s = Inr (s1, e1)"
    and s': "s' = fst (onmessage_interrupted m (fst (onmessage_toolCall m now s1)))"
    and effs: "effs = e1 @ fst (snd (onmessage_toolCall m now s1))
                  @ snd (onmessage_interrupted m (fst (onmessage_toolCall m now s1)))
                  @ snd (snd (onmessage_toolCall m now s1))"
    by (rule onmessage_Inr)
  define s2 where "s2 = fst (onmessage_toolCall m now s1)"
  have src2: "audioSourcesRef s2 = audioSourcesRef s @ started e1"
    by (simp add: s2_def onmessage_toolCall_frame onmessage_audio_sources [OF a])
  have i: "onmessage_interrupted m s2
      = (s2\<lparr>audioSourcesRef := [], nextStartTimeRef := 0\<rparr>, map SourceStop (audioSourcesRef s2))"
    using assms(1) by (simp add: onmessage_interrupted_def)
  have st: "started effs = started e1"
    by (simp add: effs started_append started_toolCall started_interrupted)
  have 1: "audioSourcesRef s' = []" and 2: "nextStartTimeRef s' = 0"
    by (simp_all add: s' s2_def [symmetric] i)
  have "set (audioSourcesRef s) \<union> set (started effs) = set (audioSourcesRef s2)"
    unfolding st by (simp add: src2)
  moreover have "SourceStop ` set (audioSourcesRef s2) \<subseteq> set effs"
    by (auto simp: effs s2_def [symmetric] i)
  ultimately have 3:
    "\<forall>src\<in>set (audioSourcesRef s) \<union> set (started effs). SourceStop src \<in> set effs"
    by blast
  have ctx: "outputAudioContextRef s' = outputAudioContextRef s"
    by (simp add: s' onmessage_interrupted_frame onmessage_toolCall_frame
        onmessage_audio_frame(3) [OF a])
  have 4: "started (snd (step (OnMessage m2 now2 t2) s')) = [\<lparr>buffer = b, startedAt = t2\<rparr>]"
    if "clipOf m2 = Some b" and "0 \<le> t2" and "outputAudioContextRef s \<noteq> Null"
    for m2 now2 t2 b
    using step_audio_message(1) [of m2 b s' now2 t2] that by (simp add: ctx 2 del: step.simps)
  from 1 2 3 4 show ?thesis by blast
qed

lemma onmessage_returns:
  assumes "audioDataOf m = None \<or> clipOf m \<noteq> None"
  shows "\<exists>s' effs. onmessage m now t s = Inr (s', effs)"
proof -
  have "\<exists>s1 e1. onmessage_audio m t s = Inr (s1, e1)"
    using assms
    by (auto simp: onmessage_audio_def clipOf_def split: option.splits sum.splits if_splits)
  then show ?thesis
    by (auto simp: onmessage_def case_prod_beta)
qed

text \<open>
  A message with the interruption flag whose audio is absent or decodes is handled as
  the specification says.
\<close>

lemma interruption_when_decodable:
  assumes "isInterrupted m" and "audioDataOf m = None \<or> clipOf m \<noteq> None"
  shows "\<exists>s' effs. onmessage m now t s = Inr (s', effs)
       \<and> audioSourcesRef s' = [] \<and> nextStartTimeRef s' = 0
       \<and> (\<forall>src\<in>set (audioSourcesRef s) \<union> set (started effs). SourceStop src \<in> set effs)
       \<and> (\<forall>m2 now2 t2 b. clipOf m2 = Some b \<and> 0 \<le> t2 \<and> outputAudioContextRef s \<noteq> Null
             \<longrightarrow> started (snd (step (OnMessage m2 now2 t2) s'))
                   = [\<lparr>buffer = b, startedAt = t2\<rparr>])"
proof -
  from onmessage_returns [OF assms(2)]
  obtain s' effs where om: "onmessage m now t s = Inr (s', effs)" by blast
  from interruption_handled [OF assms(1) om] om show ?thesis by blast
qed

text \<open>
  Claim C4. In a session where two sources are playing and the cursor is at 8, a
  message arrives that has the interruption flag and three bytes of audio. The decoding
  throws before the handler reaches the interruption: the event leaves the state as it
  was, the two sources are not stopped, the set is not cleared and the cursor stays at 8.
  The claim asks for all sources stopped, an empty set and a cursor of 0.
\<close>

theorem C4_interruption_lost:
  "isInterrupted glitchMessage
   \<and> onmessage glitchMessage 3000 6 playingSession = Inl RangeError
   \<and> step (OnMessage glitchMessage 3000 6) playingSession = (playingSession, [])
   \<and> audioSourcesRef playingSession
       = [\<lparr>buffer = silentClip 48000, startedAt = 5\<rparr>,
          \<lparr>buffer = silentClip 24000, startedAt = 7\<rparr>]
   \<and> nextStartTimeRef playingSession = 8"
proof -
  have om: "onmessage glitchMessage 3000 6 playingSession = Inl RangeError"
    by (simp add: onmessage_def onmessage_audio_def audioDataOf_def glitchMessage_def
        decode_3_bytes decodeAudioData_def newInt16Array_def playingSession_eq
        activeSession_eq)
  show ?thesis
    by (simp add: om) (simp add: isInterrupted_def glitchMessage_def playingSession_eq)
qed

section \<open>Tool calls\<close>












end
